theory Spec2Isabelle
  imports Main "HOL-Library.AList" "HOL-Library.Char_ord" "HOL-Library.List_Lexorder"
begin

section \<open>The conference-instance repository\<close>

text \<open>
  A shallow embedding of \<^verbatim>\<open>repositories/conference_instance_repository.py\<close>: the class
  \<^verbatim>\<open>ConferenceInstanceRepository\<close>, whose methods build relational queries over the tables
  Conference, ConferenceInstance, Paper and Session and hand them to a database session.

  Tables are lists of rows (the order of a list is the scan order of the table), a query is
  a function from the tables to a list of result rows, and every method takes the session
  state and returns its result together with the session state it leaves behind. An
  exception is the \<open>Inl\<close> branch of a sum.
\<close>

subsection \<open>Rows\<close>

text \<open>
  Modelled from the spec: the module \<^verbatim>\<open>models\<close> that declares the mapped classes
  Conference, ConferenceInstance, Paper and Session is not among the sources. The columns
  are the ones the repository reads and the data model of the specification names. Record
  fields are global constants, so each column carries the initial of its table:
  \<open>c_\<close> Conference, \<open>i_\<close> ConferenceInstance, \<open>p_\<close> Paper, \<open>s_\<close> Session.

  The "arbitrary additional attributes" of a ConferenceInstance are \<open>i_extras\<close>, an
  association list from attribute names \<open>'k\<close> to values \<open>'v\<close>; \<open>'k\<close> ranges over the names
  of the additional attributes only, the four fixed columns being record fields. The
  foreign keys of Paper and Session are nullable.
\<close>

record conference =
  c_conference_id :: string
  c_name :: string

record ('k, 'v) conference_instance =
  i_instance_id :: nat
  i_conference_id :: string
  i_conference_name :: string
  i_year :: int
  i_extras :: "('k \<times> 'v) list"

record paper =
  p_paper_id :: nat
  p_instance_id :: "nat option"

record session_row =
  s_session_id :: nat
  s_instance_id :: "nat option"
  s_speaker_to_session :: "string list"

subsection \<open>The database session\<close>

text \<open>
  \<open>ValueError\<close> is the exception \<^verbatim>\<open>upsert\<close> raises itself. \<open>TypeError\<close> is the exception
  Python raises for a call that gives one keyword argument twice; its string is that
  keyword. \<open>IntegrityError\<close> is the exception of a write that would give two rows the same
  primary key, and \<open>QueryError\<close> stands for any exception the storage engine raises while
  it executes a query.

  The session state holds the four tables, the number of commits issued so far, and the
  condition of the engine: when \<open>fault\<close> is \<open>Some e\<close>, executing a query raises \<open>e\<close>.
\<close>

datatype error = ValueError string | TypeError string | IntegrityError | QueryError string

record ('k, 'v) db =
  conference_tbl :: "conference list"
  instance_tbl :: "('k, 'v) conference_instance list"
  paper_tbl :: "paper list"
  session_tbl :: "session_row list"
  commits :: nat
  fault :: "error option"

text \<open>\<^verbatim>\<open>query.all()\<close>: every row of the query, or the engine's exception.\<close>

definition query_all :: "('k, 'v) db \<Rightarrow> (('k, 'v) db \<Rightarrow> 'r list) \<Rightarrow> error + 'r list" where
  "query_all s q = (case fault s of Some e \<Rightarrow> Inl e | None \<Rightarrow> Inr (q s))"

text \<open>\<^verbatim>\<open>query.first()\<close>: the first row of the query, \<open>None\<close> when there is none.\<close>

definition query_first :: "('k, 'v) db \<Rightarrow> (('k, 'v) db \<Rightarrow> 'r list) \<Rightarrow> error + 'r option" where
  "query_first s q =
     (case fault s of
        Some e \<Rightarrow> Inl e
      | None \<Rightarrow> Inr (case q s of [] \<Rightarrow> None | r # _ \<Rightarrow> Some r))"

text \<open>\<^verbatim>\<open>session.commit()\<close>.\<close>

definition commit :: "('k, 'v) db \<Rightarrow> ('k, 'v) db" where
  "commit s = s\<lparr>commits := Suc (commits s)\<rparr>"

subsection \<open>Query building blocks\<close>

text \<open>\<open>ORDER BY f DESC\<close> on an integer column, as a stable sort.\<close>

definition order_by_desc :: "('r \<Rightarrow> int) \<Rightarrow> 'r list \<Rightarrow> 'r list" where
  "order_by_desc f rows = sort_key (\<lambda>r. - f r) rows"

text \<open>
  The inner join of Conference and ConferenceInstance on \<open>conference_id\<close>, written from
  either side.
\<close>

definition join_instance ::
  "conference list \<Rightarrow> ('k, 'v) conference_instance list
     \<Rightarrow> (conference \<times> ('k, 'v) conference_instance) list" where
  "join_instance cs is =
     concat (map (\<lambda>c. map (\<lambda>i. (c, i))
       (filter (\<lambda>i. c_conference_id c = i_conference_id i) is)) cs)"

definition join_conference ::
  "('k, 'v) conference_instance list \<Rightarrow> conference list
     \<Rightarrow> (('k, 'v) conference_instance \<times> conference) list" where
  "join_conference is cs =
     concat (map (\<lambda>i. map (\<lambda>c. (i, c))
       (filter (\<lambda>c. c_conference_id c = i_conference_id i) cs)) is)"

text \<open>
  The left outer join with Paper on \<open>instance_id\<close>: a row with no paper is kept once, with
  \<open>None\<close> in the place of the paper.
\<close>

definition papers_of :: "paper list \<Rightarrow> ('k, 'v) conference_instance \<Rightarrow> paper list" where
  "papers_of ps i = filter (\<lambda>p. p_instance_id p = Some (i_instance_id i)) ps"

definition outerjoin_paper ::
  "paper list \<Rightarrow> (conference \<times> ('k, 'v) conference_instance) list
     \<Rightarrow> (conference \<times> ('k, 'v) conference_instance \<times> paper option) list" where
  "outerjoin_paper ps rows =
     concat (map (\<lambda>(c, i).
       (if papers_of ps i = [] then [(c, i, None)]
        else map (\<lambda>p. (c, i, Some p)) (papers_of ps i))) rows)"

text \<open>
  \<open>GROUP BY g\<close> with \<open>count(Paper.paper_id)\<close>: one row per distinct group key, counting the
  rows of the group whose paper is not NULL.
\<close>

definition group_count :: "('g \<times> paper option) list \<Rightarrow> ('g \<times> nat) list" where
  "group_count rows =
     map (\<lambda>g. (g, length (filter (\<lambda>(k, p). k = g \<and> p \<noteq> None) rows)))
       (remdups (map fst rows))"

subsection \<open>The year argument of \<^verbatim>\<open>get_conference_stats\<close>\<close>

text \<open>
  The parameter is declared \<^verbatim>\<open>Optional[int]\<close> and compared with the string
  \<^verbatim>\<open>"All Years"\<close>: it is \<^verbatim>\<open>None\<close>, an integer, or that string. \<open>truthy\<close> is Python's
  truth value of the argument, \<open>year_is\<close> the SQL comparison \<^verbatim>\<open>ConferenceInstance.year == year\<close>.
\<close>

datatype year_arg = NoYear | YearInt int | AllYears

fun truthy :: "year_arg \<Rightarrow> bool" where
  "truthy NoYear = False"
| "truthy (YearInt n) = (n \<noteq> 0)"
| "truthy AllYears = True"

fun year_is :: "year_arg \<Rightarrow> int \<Rightarrow> bool" where
  "year_is (YearInt n) y = (y = n)"
| "year_is NoYear y = False"
| "year_is AllYears y = False"

text \<open>
  The filter in the words of the specification, for comparison with the guard of the
  source: an integer asks for the instances of that year, a missing argument and the
  sentinel ask for all of them.
\<close>

fun in_requested_year :: "year_arg \<Rightarrow> ('k, 'v) conference_instance \<Rightarrow> bool" where
  "in_requested_year NoYear i = True"
| "in_requested_year (YearInt n) i = (i_year i = n)"
| "in_requested_year AllYears i = True"

subsection \<open>Keyword arguments\<close>

text \<open>
  The dictionary \<^verbatim>\<open>**kwargs\<close> of \<^verbatim>\<open>upsert\<close> is the list of its items, in order. Python binds
  the keywords \<^verbatim>\<open>conference_id\<close>, \<^verbatim>\<open>name\<close> and \<^verbatim>\<open>year\<close> to the parameters of that name, so
  an item of the dictionary names the column \<open>conference_name\<close>, the column \<open>instance_id\<close>
  or one of the additional attributes. \<open>keyword_of\<close> is the key of an item; the keys of a
  dictionary are distinct.
\<close>

datatype ('k, 'v) kwarg = ConferenceName string | InstanceId nat | Extra 'k 'v

datatype 'k keyword = KConferenceName | KInstanceId | KExtra 'k

fun keyword_of :: "('k, 'v) kwarg \<Rightarrow> 'k keyword" where
  "keyword_of (ConferenceName v) = KConferenceName"
| "keyword_of (InstanceId v) = KInstanceId"
| "keyword_of (Extra k v) = KExtra k"

text \<open>\<^verbatim>\<open>setattr(instance, key, value)\<close>: the attribute named by the key takes the value.\<close>

fun setattr :: "('k, 'v) conference_instance \<Rightarrow> ('k, 'v) kwarg \<Rightarrow> ('k, 'v) conference_instance" where
  "setattr instance (ConferenceName v) = instance\<lparr>i_conference_name := v\<rparr>"
| "setattr instance (InstanceId v) = instance\<lparr>i_instance_id := v\<rparr>"
| "setattr instance (Extra k v) = instance\<lparr>i_extras := AList.update k v (i_extras instance)\<rparr>"

text \<open>\<^verbatim>\<open>for key, value in kwargs.items(): setattr(instance, key, value)\<close>.\<close>

definition setattrs ::
  "('k, 'v) kwarg list \<Rightarrow> ('k, 'v) conference_instance \<Rightarrow> ('k, 'v) conference_instance" where
  "setattrs kwargs instance = fold (\<lambda>item i. setattr i item) kwargs instance"


subsection \<open>Writes\<close>

text \<open>
  Modelled from the spec: the storage engine is not among the sources; it "enforces schema
  constraints", and \<open>instance_id\<close> is the identity of a ConferenceInstance. A pending
  INSERT or UPDATE reaches the table when the session commits, and the engine refuses a
  write that would give two rows the same primary key.

  \<open>next_instance_id\<close> is the primary key the engine gives to an inserted row that has none;
  \<open>flush_insert\<close> is the INSERT of an added instance, \<open>flush_update\<close> the UPDATE, by its
  primary key as loaded, of an instance whose attributes were set.
\<close>

definition next_instance_id :: "('k, 'v) conference_instance list \<Rightarrow> nat" where
  "next_instance_id is = Suc (fold max (map i_instance_id is) 0)"

definition flush_insert ::
  "('k, 'v) conference_instance \<Rightarrow> ('k, 'v) db \<Rightarrow> error + ('k, 'v) db" where
  "flush_insert instance s =
     (if i_instance_id instance \<in> set (map i_instance_id (instance_tbl s))
      then Inl IntegrityError
      else Inr (s\<lparr>instance_tbl := instance_tbl s @ [instance]\<rparr>))"

definition flush_update ::
  "nat \<Rightarrow> ('k, 'v) conference_instance \<Rightarrow> ('k, 'v) db \<Rightarrow> error + ('k, 'v) db" where
  "flush_update loaded_id instance s =
     (if i_instance_id instance \<noteq> loaded_id
         \<and> i_instance_id instance \<in> set (map i_instance_id (instance_tbl s))
      then Inl IntegrityError
      else Inr (s\<lparr>instance_tbl :=
                   map (\<lambda>r. if i_instance_id r = loaded_id then instance else r)
                     (instance_tbl s)\<rparr>))"

subsection \<open>The repository\<close>

text \<open>
  The two lookups of \<^verbatim>\<open>upsert\<close>: \<^verbatim>\<open>filter_by(conference_id=conference_id)\<close> on Conference and
  \<^verbatim>\<open>filter_by(conference_id=conference_id, year=year)\<close> on ConferenceInstance.
\<close>

definition conference_rows :: "string \<Rightarrow> conference list \<Rightarrow> conference list" where
  "conference_rows conference_id tbl = filter (\<lambda>c. c_conference_id c = conference_id) tbl"

definition instance_rows ::
  "string \<Rightarrow> int \<Rightarrow> ('k, 'v) conference_instance list \<Rightarrow> ('k, 'v) conference_instance list" where
  "instance_rows conference_id year tbl =
     filter (\<lambda>i. i_conference_id i = conference_id \<and> i_year i = year) tbl"

text \<open>
  \<^verbatim>\<open>upsert\<close>. The call \<^verbatim>\<open>ConferenceInstance(conference_id=..., conference_name=name, year=year, **kwargs)\<close>
  of the branch that creates gives the keyword \<^verbatim>\<open>conference_name\<close> twice when the dictionary
  holds it, and Python raises \<open>TypeError\<close> before anything is added or committed; otherwise
  the constructor sets the three columns and then every item of the dictionary.
\<close>

definition upsert ::
  "string \<Rightarrow> string \<Rightarrow> int \<Rightarrow> ('k, 'v) kwarg list \<Rightarrow> ('k, 'v) db
     \<Rightarrow> (error + ('k, 'v) conference_instance) \<times> ('k, 'v) db" where
  "upsert conference_id name year kwargs s =
     (case query_first s (\<lambda>s. conference_rows conference_id (conference_tbl s)) of
        Inl e \<Rightarrow> (Inl e, s)
      | Inr None \<Rightarrow> (Inl (ValueError ''Conference not found''), s)
      | Inr (Some conference) \<Rightarrow>
          (case query_first s (\<lambda>s. instance_rows conference_id year (instance_tbl s)) of
             Inl e \<Rightarrow> (Inl e, s)
           | Inr (Some instance) \<Rightarrow>
               (let instance' = setattrs kwargs instance
                in case flush_update (i_instance_id instance) instance' s of
                     Inl e \<Rightarrow> (Inl e, s)
                   | Inr s' \<Rightarrow> (Inr instance', commit s'))
           | Inr None \<Rightarrow>
               (if KConferenceName \<in> set (map keyword_of kwargs)
                then (Inl (TypeError ''conference_name''), s)
                else
                  (let instance = setattrs kwargs
                         \<lparr>i_instance_id = next_instance_id (instance_tbl s),
                          i_conference_id = conference_id,
                          i_conference_name = name,
                          i_year = year,
                          i_extras = []\<rparr>
                   in case flush_insert instance s of
                        Inl e \<Rightarrow> (Inl e, s)
                      | Inr s' \<Rightarrow> (Inr instance, commit s')))))"

definition get_all_conferences ::
  "('k, 'v) db \<Rightarrow> (error + string list) \<times> ('k, 'v) db" where
  "get_all_conferences s =
     (case query_all s (\<lambda>s. remdups (map c_name (conference_tbl s))) of
        Inl e \<Rightarrow> (Inl e, s)
      | Inr conferences \<Rightarrow> (Inr (sort conferences), s))"

definition get_all_years :: "('k, 'v) db \<Rightarrow> (error + int list) \<times> ('k, 'v) db" where
  "get_all_years s =
     (case query_all s (\<lambda>s. order_by_desc id (remdups (map i_year (instance_tbl s)))) of
        Inl e \<Rightarrow> (Inl e, s)
      | Inr years \<Rightarrow> (Inr years, s))"

definition get_conferences_by_year ::
  "int \<Rightarrow> ('k, 'v) db \<Rightarrow> (error + string list) \<times> ('k, 'v) db" where
  "get_conferences_by_year year s =
     (case query_all s (\<lambda>s.
             sort (remdups (map (\<lambda>(c, i). c_name c)
               (filter (\<lambda>(c, i). i_year i = year)
                 (join_instance (conference_tbl s) (instance_tbl s)))))) of
        Inl e \<Rightarrow> (Inl e, s)
      | Inr conferences \<Rightarrow> (Inr conferences, s))"

definition get_conference_years ::
  "string \<Rightarrow> ('k, 'v) db \<Rightarrow> (error + int list) \<times> ('k, 'v) db" where
  "get_conference_years conference s =
     (case query_all s (\<lambda>s.
             order_by_desc id (remdups (map (\<lambda>(i, c). i_year i)
               (filter (\<lambda>(i, c). c_name c = conference)
                 (join_conference (instance_tbl s) (conference_tbl s)))))) of
        Inl e \<Rightarrow> (Inl e, s)
      | Inr years \<Rightarrow> (Inr years, s))"

text \<open>
  The query of \<^verbatim>\<open>get_conference_stats\<close>: join, outer join, the filter on the name, the
  filter on the year under the source's guard \<^verbatim>\<open>if year and year != "All Years"\<close>, the
  grouping by instance and the order by year.
\<close>

definition conference_stats_query ::
  "string \<Rightarrow> year_arg \<Rightarrow> ('k, 'v) db \<Rightarrow> (('k, 'v) conference_instance \<times> nat) list" where
  "conference_stats_query conference year s =
     (let query = filter (\<lambda>(c, i, p). c_name c = conference)
                    (outerjoin_paper (paper_tbl s)
                      (join_instance (conference_tbl s) (instance_tbl s)));
          query = (if truthy year \<and> year \<noteq> AllYears
                   then filter (\<lambda>(c, i, p). year_is year (i_year i)) query
                   else query)
      in order_by_desc (\<lambda>(i, n). i_year i)
           (group_count (map (\<lambda>(c, i, p). (i, p)) query)))"

definition get_conference_stats ::
  "string \<Rightarrow> year_arg \<Rightarrow> ('k, 'v) db
     \<Rightarrow> (error + (('k, 'v) conference_instance \<times> nat) list) \<times> ('k, 'v) db" where
  "get_conference_stats conference year s =
     (case query_all s (conference_stats_query conference year) of
        Inl e \<Rightarrow> (Inr [], s)
      | Inr rows \<Rightarrow> (Inr rows, s))"

definition get_yearly_conference_stats ::
  "int \<Rightarrow> ('k, 'v) db \<Rightarrow> (error + (string \<times> nat) list) \<times> ('k, 'v) db" where
  "get_yearly_conference_stats year s =
     (case query_all s (\<lambda>s.
             group_count (map (\<lambda>(c, i, p). (c_name c, p))
               (filter (\<lambda>(c, i, p). i_year i = year)
                 (outerjoin_paper (paper_tbl s)
                   (join_instance (conference_tbl s) (instance_tbl s)))))) of
        Inl e \<Rightarrow> (Inl e, s)
      | Inr rows \<Rightarrow> (Inr rows, s))"

definition get_sessions_by_instance ::
  "nat \<Rightarrow> ('k, 'v) db \<Rightarrow> (error + session_row list) \<times> ('k, 'v) db" where
  "get_sessions_by_instance instance_id s =
     (case query_all s (\<lambda>s. filter (\<lambda>r. s_instance_id r = Some instance_id) (session_tbl s)) of
        Inl e \<Rightarrow> (Inr [], s)
      | Inr sessions \<Rightarrow> (Inr sessions, s))"

definition get_instance_by_year_and_name ::
  "int \<Rightarrow> string \<Rightarrow> ('k, 'v) db
     \<Rightarrow> (error + ('k, 'v) conference_instance option) \<times> ('k, 'v) db" where
  "get_instance_by_year_and_name year conference_name s =
     (case query_first s (\<lambda>s. filter
             (\<lambda>i. i_year i = year \<and> i_conference_name i = conference_name) (instance_tbl s)) of
        Inl e \<Rightarrow> (Inr None, s)
      | Inr instance \<Rightarrow> (Inr instance, s))"

subsection \<open>The uniqueness invariant\<close>

text \<open>
  The invariant of the data model on the ConferenceInstance table: the primary key
  \<open>instance_id\<close> is unique, and so is the pair (\<open>conference_id\<close>, \<open>year\<close>). No constraint of
  the database enforces the second part.
\<close>

definition unique_instances :: "('k, 'v) conference_instance list \<Rightarrow> bool" where
  "unique_instances tbl \<longleftrightarrow>
     distinct (map i_instance_id tbl)
     \<and> distinct (map (\<lambda>i. (i_conference_id i, i_year i)) tbl)"

subsection \<open>The scenario of the specification\<close>

text \<open>
  Conference "AAAI" with instances for 2022 (five papers) and 2023 (no paper), conference
  "NeurIPS" with an instance for 2023, and one session of the 2022 instance.
\<close>

definition aaai_2022 :: "(string, string) conference_instance" where
  "aaai_2022 = \<lparr>i_instance_id = 1, i_conference_id = ''c1'', i_conference_name = ''AAAI'',
                 i_year = 2022, i_extras = []\<rparr>"

definition aaai_2023 :: "(string, string) conference_instance" where
  "aaai_2023 = \<lparr>i_instance_id = 2, i_conference_id = ''c1'', i_conference_name = ''AAAI'',
                 i_year = 2023, i_extras = []\<rparr>"

definition neurips_2023 :: "(string, string) conference_instance" where
  "neurips_2023 = \<lparr>i_instance_id = 3, i_conference_id = ''c2'', i_conference_name = ''NeurIPS'',
                    i_year = 2023, i_extras = []\<rparr>"

definition demo :: "(string, string) db" where
  "demo =
     \<lparr>conference_tbl =
        [\<lparr>c_conference_id = ''c1'', c_name = ''AAAI''\<rparr>,
         \<lparr>c_conference_id = ''c2'', c_name = ''NeurIPS''\<rparr>],
      instance_tbl = [aaai_2022, aaai_2023, neurips_2023],
      paper_tbl =
        [\<lparr>p_paper_id = 1, p_instance_id = Some 1\<rparr>,
         \<lparr>p_paper_id = 2, p_instance_id = Some 1\<rparr>,
         \<lparr>p_paper_id = 3, p_instance_id = Some 1\<rparr>,
         \<lparr>p_paper_id = 4, p_instance_id = Some 1\<rparr>,
         \<lparr>p_paper_id = 5, p_instance_id = Some 1\<rparr>],
      session_tbl =
        [\<lparr>s_session_id = 1, s_instance_id = Some 1, s_speaker_to_session = [''Ada'']\<rparr>],
      commits = 0,
      fault = None\<rparr>"

text \<open>The same database behind an engine that fails on every query.\<close>

definition broken :: "(string, string) db" where
  "broken = demo\<lparr>fault := Some (QueryError ''connection lost'')\<rparr>"

section \<open>Properties\<close>

subsection \<open>Ordering\<close>

lemma set_order_by_desc: "set (order_by_desc f rows) = set rows"
  by (simp add: order_by_desc_def)

lemma distinct_order_by_desc: "distinct (order_by_desc f rows) = distinct rows"
  by (simp add: order_by_desc_def)

lemma descending_order_by_desc:
  "sorted_wrt (\<lambda>a b. f b \<le> f a) (order_by_desc f rows)"
proof -
  have "sorted (map (\<lambda>r. - f r) (order_by_desc f rows))"
    by (simp add: order_by_desc_def)
  then show ?thesis
    by (simp add: sorted_map)
qed

lemma distinct_descending_strict:
  fixes xs :: "int list"
  assumes "distinct xs" and "sorted_wrt (\<lambda>a b. b \<le> a) xs"
  shows "sorted_wrt (\<lambda>a b. b < a) xs"
  using assms by (induction xs) (auto simp: order_less_le)

lemma strictly_descending_order_by_desc:
  assumes "distinct rows"
  shows "sorted_wrt (\<lambda>a b. b < a) (order_by_desc id rows)"
proof -
  have "sorted_wrt (\<lambda>a b. b \<le> a) (order_by_desc id rows)"
    using descending_order_by_desc [of id rows] by simp
  then show ?thesis
    using assms by (simp add: distinct_descending_strict distinct_order_by_desc)
qed

subsection \<open>\<^verbatim>\<open>get_all_years\<close>\<close>

text \<open>
  Claim C6. Whenever the engine executes the query, \<^verbatim>\<open>get_all_years()\<close> returns a list
  whose elements are exactly the years that occur in the ConferenceInstance table, each of
  them once, in strictly descending order, and leaves the session state as it was.
\<close>

theorem get_all_years_distinct_descending:
  assumes "fault s = None"
  shows "\<exists>years. get_all_years s = (Inr years, s)
           \<and> set years = i_year ` set (instance_tbl s)
           \<and> distinct years
           \<and> sorted_wrt (\<lambda>a b. b < a) years"
  using assms
  by (simp add: get_all_years_def query_all_def set_order_by_desc distinct_order_by_desc
      strictly_descending_order_by_desc)

theorem get_all_years_witness:
  "fault demo = None
   \<and> get_all_years demo = (Inr [2023, 2022], demo)
   \<and> (\<exists>years. get_all_years demo = (Inr years, demo)
           \<and> set years = i_year ` set (instance_tbl demo)
           \<and> distinct years
           \<and> sorted_wrt (\<lambda>a b. b < a) years)"
proof -
  have f: "fault demo = None"
    by (simp add: demo_def)
  have v: "get_all_years demo = (Inr [2023, 2022], demo)"
    by (simp add: get_all_years_def query_all_def order_by_desc_def f)
       (simp add: demo_def aaai_2022_def aaai_2023_def neurips_2023_def)
  show ?thesis
    using f v get_all_years_distinct_descending [OF f] by simp
qed

subsection \<open>Joins, grouping and counting\<close>

lemma set_join_instance:
  "set (join_instance cs is) =
     {(c, i). c \<in> set cs \<and> i \<in> set is \<and> c_conference_id c = i_conference_id i}"
  by (auto simp: join_instance_def)

lemma join_instance_Cons:
  "join_instance (c # cs) is =
     map (\<lambda>i. (c, i)) (filter (\<lambda>i. c_conference_id c = i_conference_id i) is)
       @ join_instance cs is"
  by (simp add: join_instance_def)

lemma distinct_join_instance:
  assumes "distinct cs" and "distinct is"
  shows "distinct (join_instance cs is)"
  using assms
proof (induction cs)
  case Nil
  then show ?case by (simp add: join_instance_def)
next
  case (Cons c cs)
  have "distinct (map (\<lambda>i. (c, i)) (filter (\<lambda>i. c_conference_id c = i_conference_id i) is))"
    using Cons.prems by (simp add: distinct_map inj_on_def)
  moreover have "distinct (join_instance cs is)"
    using Cons by simp
  moreover have "set (map (\<lambda>i. (c, i)) (filter (\<lambda>i. c_conference_id c = i_conference_id i) is))
      \<inter> set (join_instance cs is) = {}"
    using Cons.prems by (auto simp: set_join_instance)
  ultimately show ?case
    by (simp add: join_instance_Cons)
qed

lemma sum_list_if_const:
  "sum_list (map (\<lambda>x. if P x then (k::nat) else 0) xs) = k * length (filter P xs)"
  by (induction xs) simp_all

lemma count_outerjoin_row:
  "length (filter (\<lambda>(c', i', p). i' = g \<and> p \<noteq> None \<and> Q c' i')
      (if papers_of ps i = [] then [(c, i, None)]
       else map (\<lambda>p. (c, i, Some p)) (papers_of ps i)))
   = (if i = g \<and> Q c i then length (papers_of ps g) else 0)"
proof (cases "i = g \<and> Q c i")
  case True
  have "filter (\<lambda>(c', i', p). i' = g \<and> p \<noteq> None \<and> Q c' i')
          (map (\<lambda>p. (c, i, Some p)) xs) = map (\<lambda>p. (c, i, Some p)) xs" for xs :: "paper list"
    using True by (induction xs) auto
  with True show ?thesis
    by auto
next
  case False
  have "filter (\<lambda>(c', i', p). i' = g \<and> p \<noteq> None \<and> Q c' i')
          (map (\<lambda>p. (c, i, Some p)) xs) = []" for xs :: "paper list"
    using False by (induction xs) auto
  with False show ?thesis
    by auto
qed


lemma count_outerjoin:
  "length (filter (\<lambda>(c, i, p). i = g \<and> p \<noteq> None \<and> Q c i) (outerjoin_paper ps rows))
   = length (papers_of ps g) * length (filter (\<lambda>(c, i). i = g \<and> Q c i) rows)"
proof -
  have "length (filter (\<lambda>(c, i, p). i = g \<and> p \<noteq> None \<and> Q c i) (outerjoin_paper ps rows))
      = sum_list (map (\<lambda>r. if (case r of (c, i) \<Rightarrow> i = g \<and> Q c i)
                                      then length (papers_of ps g) else 0) rows)"
  proof (induction rows)
    case Nil
    then show ?case by (simp add: outerjoin_paper_def)
  next
    case (Cons r rows)
    obtain c i where r: "r = (c, i)"
      by (cases r)
    have "outerjoin_paper ps (r # rows) =
        (if papers_of ps i = [] then [(c, i, None)]
         else map (\<lambda>p. (c, i, Some p)) (papers_of ps i)) @ outerjoin_paper ps rows"
      by (simp add: outerjoin_paper_def r)
    then show ?case
      using Cons.IH count_outerjoin_row [of g Q ps i c]
      by (simp only: filter_append length_append list.map sum_list.Cons r prod.case)
  qed
  also have "\<dots> = length (papers_of ps g) * length (filter (\<lambda>(c, i). i = g \<and> Q c i) rows)"
    by (rule sum_list_if_const)
  finally show ?thesis .
qed



lemma outerjoin_paper_Cons:
  "outerjoin_paper ps ((c, i) # rows) =
     (if papers_of ps i = [] then [(c, i, None)]
      else map (\<lambda>p. (c, i, Some p)) (papers_of ps i)) @ outerjoin_paper ps rows"
  by (simp add: outerjoin_paper_def)


lemma outerjoin_paper_pairs:
  "(\<exists>p. (c, i, p) \<in> set (outerjoin_paper ps rows)) \<longleftrightarrow> (c, i) \<in> set rows"
proof (induction rows)
  case Nil
  then show ?case by (simp add: outerjoin_paper_def)
next
  case (Cons r rows)
  obtain c' i' where r: "r = (c', i')"
    by (cases r)
  have "(\<exists>p. (c, i, p) \<in> set (if papers_of ps i' = [] then [(c', i', None)]
            else map (\<lambda>p. (c', i', Some p)) (papers_of ps i'))) \<longleftrightarrow> (c, i) = (c', i')"
  proof (cases "papers_of ps i'")
    case Nil
    then show ?thesis by auto
  next
    case (Cons q qs)
    then show ?thesis by auto
  qed
  with Cons.IH show ?case
    unfolding r outerjoin_paper_Cons set_append by auto
qed

lemma count_group_filter:
  "length (filter (\<lambda>(k, p). k = g \<and> p \<noteq> None)
      (map (\<lambda>(c, i, p). (i, p)) (filter (\<lambda>(c, i, p). Q c i) xs)))
   = length (filter (\<lambda>(c, i, p). i = g \<and> p \<noteq> None \<and> Q c i) xs)"
  by (induction xs) auto

lemma map_fst_group_count: "map fst (group_count rows) = remdups (map fst rows)"
  by (simp add: group_count_def comp_def)

lemma group_count_entry:
  "(g, n) \<in> set (group_count rows) \<Longrightarrow>
     n = length (filter (\<lambda>(k, p). k = g \<and> p \<noteq> None) rows)"
  by (auto simp: group_count_def)

lemma filter_empty_unique:
  assumes "x \<notin> set xs" and "\<forall>y \<in> set xs. P y \<longrightarrow> y = x"
  shows "filter P xs = []"
  using assms by (induction xs) auto

lemma length_filter_unique:
  "distinct xs \<Longrightarrow> x \<in> set xs \<Longrightarrow> P x \<Longrightarrow> (\<forall>y \<in> set xs. P y \<longrightarrow> y = x)
     \<Longrightarrow> length (filter P xs) = Suc 0"
proof (induction xs)
  case Nil
  then show ?case by simp
next
  case (Cons a xs)
  show ?case
  proof (cases "a = x")
    case True
    have "x \<notin> set xs"
      using Cons.prems(1) True by simp
    moreover have "\<forall>y \<in> set xs. P y \<longrightarrow> y = x"
      using Cons.prems(4) by simp
    ultimately have "filter P xs = []"
      by (rule filter_empty_unique)
    with True Cons.prems(3) show ?thesis
      by simp
  next
    case False
    have na: "\<not> P a"
      using Cons.prems(4) False by simp
    have 1: "distinct xs"
      using Cons.prems(1) by simp
    have 2: "x \<in> set xs"
      using Cons.prems(2) False by auto
    have 3: "\<forall>y \<in> set xs. P y \<longrightarrow> y = x"
      using Cons.prems(4) by simp
    have "length (filter P xs) = Suc 0"
      by (rule Cons.IH [OF 1 2 Cons.prems(3) 3])
    with na show ?thesis
      by simp
  qed
qed


lemma fst_set_group_rows:
  "fst ` set (map (\<lambda>(c, i, p). (i, p)) (filter (\<lambda>(c, i, p). Q c i) xs))
     = {i. \<exists>c. (\<exists>p. (c, i, p) \<in> set xs) \<and> Q c i}"
proof (induction xs)
  case Nil
  then show ?case by simp
next
  case (Cons r xs)
  obtain c i p where r: "r = (c, i, p)"
    by (cases r)
  show ?case
    unfolding r using Cons.IH by (cases "Q c i") auto
qed

lemma group_keys:
  "fst ` set (map (\<lambda>(c, i, p). (i, p)) (filter (\<lambda>(c, i, p). Q c i) (outerjoin_paper ps rows)))
   = {i. \<exists>c. (c, i) \<in> set rows \<and> Q c i}"
  by (simp only: fst_set_group_rows outerjoin_paper_pairs)


lemma stats_query_unfold:
  "conference_stats_query C y s =
     order_by_desc (\<lambda>(i, n). i_year i)
       (group_count (map (\<lambda>(c, i, p). (i, p))
          (filter (\<lambda>(c, i, p). c_name c = C \<and> (truthy y \<and> y \<noteq> AllYears \<longrightarrow> year_is y (i_year i)))
             (outerjoin_paper (paper_tbl s)
                (join_instance (conference_tbl s) (instance_tbl s))))))"
proof (cases "truthy y \<and> y \<noteq> AllYears")
  case True
  have "filter (\<lambda>(c, i, p). year_is y (i_year i)) (filter (\<lambda>(c, i, p). c_name c = C) xs)
      = filter (\<lambda>(c, i, p). c_name c = C
          \<and> (truthy y \<and> y \<noteq> AllYears \<longrightarrow> year_is y (i_year i))) xs"
    for xs :: "(conference \<times> ('a, 'b) conference_instance \<times> paper option) list"
    unfolding filter_filter using True by (intro filter_cong refl) auto
  then show ?thesis
    unfolding conference_stats_query_def Let_def if_P [OF True] by (rule arg_cong)
next
  case False
  have "filter (\<lambda>(c, i, p). c_name c = C) xs
      = filter (\<lambda>(c, i, p). c_name c = C
          \<and> (truthy y \<and> y \<noteq> AllYears \<longrightarrow> year_is y (i_year i))) xs"
    for xs :: "(conference \<times> ('a, 'b) conference_instance \<times> paper option) list"
    using False by (intro filter_cong refl) auto
  then show ?thesis
    unfolding conference_stats_query_def Let_def if_not_P [OF False] by (rule arg_cong)
qed

lemma distinct_keys_group_count: "distinct (map fst (group_count rows))"
  by (simp add: map_fst_group_count)

lemma distinct_keys_order_by_desc:
  assumes "distinct (map fst rows)"
  shows "distinct (map fst (order_by_desc f rows))"
proof -
  have "distinct rows" and "inj_on fst (set rows)"
    using assms by (simp_all add: distinct_map)
  then show ?thesis
    by (simp add: distinct_map distinct_order_by_desc set_order_by_desc)
qed


lemma joined_pair_unique:
  assumes cs: "distinct (map c_conference_id cs)" and "distinct is"
    and j: "(c0, g) \<in> set (join_instance cs is)" and q: "Q c0 g"
  shows "length (filter (\<lambda>(c, i). i = g \<and> Q c i) (join_instance cs is)) = Suc 0"
proof (rule length_filter_unique [where x = "(c0, g)"])
  show "distinct (join_instance cs is)"
    using assms(1,2) by (simp add: distinct_join_instance distinct_map)
  show "(c0, g) \<in> set (join_instance cs is)"
    by (rule j)
  show "case (c0, g) of (c, i) \<Rightarrow> i = g \<and> Q c i"
    using q by simp
  show "\<forall>r \<in> set (join_instance cs is). (case r of (c, i) \<Rightarrow> i = g \<and> Q c i) \<longrightarrow> r = (c0, g)"
  proof (intro ballI impI)
    fix r
    assume r: "r \<in> set (join_instance cs is)" and p: "case r of (c, i) \<Rightarrow> i = g \<and> Q c i"
    obtain c i where ri: "r = (c, i)"
      by (cases r)
    have ig: "i = g"
      using p ri by simp
    have "c \<in> set cs" "c_conference_id c = i_conference_id g"
      using r ri ig by (simp_all add: set_join_instance)
    moreover have "c0 \<in> set cs" "c_conference_id c0 = i_conference_id g"
      using j by (simp_all add: set_join_instance)
    moreover have "inj_on c_conference_id (set cs)"
      using cs by (simp add: distinct_map)
    ultimately have "c = c0"
      by (simp add: inj_on_def)
    with ri ig show "r = (c0, g)"
      by simp
  qed
qed


lemma stats_count:
  assumes cs: "distinct (map c_conference_id cs)" and "distinct is"
    and j: "(c0, g) \<in> set (join_instance cs is)" and q: "Q c0 g"
  shows "length (filter (\<lambda>(k, p). k = g \<and> p \<noteq> None)
      (map (\<lambda>(c, i, p). (i, p)) (filter (\<lambda>(c, i, p). Q c i)
         (outerjoin_paper ps (join_instance cs is)))))
    = length (papers_of ps g)"
proof -
  have "length (filter (\<lambda>(c, i). i = g \<and> Q c i) (join_instance cs is)) = Suc 0"
    using assms by (rule joined_pair_unique)
  then show ?thesis
    by (simp only: count_group_filter count_outerjoin mult_Suc_right mult_0_right add_0)
qed

lemma set_join_conference:
  "set (join_conference is cs) =
     {(i, c). i \<in> set is \<and> c \<in> set cs \<and> c_conference_id c = i_conference_id i}"
  by (auto simp: join_conference_def)

subsection \<open>\<^verbatim>\<open>get_conference_stats\<close>\<close>

text \<open>
  For every year argument but the integer 0, in a database whose primary keys
  \<open>conference_id\<close> and \<open>instance_id\<close> are unique, and whenever the engine executes the query:
  \<^verbatim>\<open>get_conference_stats(conference, year)\<close> returns one pair for each ConferenceInstance
  that belongs to a Conference of the given name and is of the requested year. The count of
  a pair is the number of Paper rows whose \<open>instance_id\<close> is the instance's, so an instance
  without papers has count 0, and the pairs are in descending order of the instance's year.
\<close>

lemma get_conference_stats_counts:
  assumes "fault s = None"
    and "distinct (map c_conference_id (conference_tbl s))"
    and "distinct (map i_instance_id (instance_tbl s))"
    and "y \<noteq> YearInt 0"
  shows "\<exists>rows. get_conference_stats C y s = (Inr rows, s)
           \<and> distinct (map fst rows)
           \<and> set (map fst rows) =
               {i \<in> set (instance_tbl s).
                  (\<exists>c \<in> set (conference_tbl s).
                     c_conference_id c = i_conference_id i \<and> c_name c = C)
                  \<and> in_requested_year y i}
           \<and> (\<forall>(i, n) \<in> set rows.
                 n = length (filter (\<lambda>p. p_instance_id p = Some (i_instance_id i)) (paper_tbl s)))
           \<and> sorted_wrt (\<lambda>a b. i_year (fst b) \<le> i_year (fst a)) rows"
proof -
  define Q where "Q = (\<lambda>(c::conference) (i::('a, 'b) conference_instance).
     c_name c = C \<and> (truthy y \<and> y \<noteq> AllYears \<longrightarrow> year_is y (i_year i)))"
  define J where "J = join_instance (conference_tbl s) (instance_tbl s)"
  define G where "G = map (\<lambda>(c, i, p). (i, p))
     (filter (\<lambda>(c, i, p). Q c i) (outerjoin_paper (paper_tbl s) J))"
  define rows where "rows = order_by_desc (\<lambda>(i, n). i_year i) (group_count G)"
  have q: "conference_stats_query C y s = rows"
    by (simp only: stats_query_unfold rows_def G_def J_def Q_def)
  have r: "get_conference_stats C y s = (Inr rows, s)"
    using assms(1) by (simp add: get_conference_stats_def query_all_def q)
  have d: "distinct (map fst rows)"
    unfolding rows_def by (intro distinct_keys_order_by_desc distinct_keys_group_count)
  have keys: "set (map fst rows) = {i. \<exists>c. (c, i) \<in> set J \<and> Q c i}"
  proof -
    have "set (map fst rows) = fst ` set (group_count G)"
      by (simp add: rows_def set_order_by_desc)
    also have "\<dots> = set (map fst (group_count G))"
      by simp
    also have "\<dots> = fst ` set G"
      by (simp only: map_fst_group_count set_remdups set_map)
    also have "\<dots> = {i. \<exists>c. (c, i) \<in> set J \<and> Q c i}"
      unfolding G_def by (rule group_keys)
    finally show ?thesis .
  qed
  have g: "(truthy y \<and> y \<noteq> AllYears \<longrightarrow> year_is y (i_year i)) \<longleftrightarrow> in_requested_year y i"
    for i :: "('a, 'b) conference_instance"
    using assms(4) by (cases y) auto
  have m: "set (map fst rows) =
      {i \<in> set (instance_tbl s).
         (\<exists>c \<in> set (conference_tbl s). c_conference_id c = i_conference_id i \<and> c_name c = C)
         \<and> in_requested_year y i}"
    unfolding keys J_def Q_def set_join_instance g by auto
  have di: "distinct (instance_tbl s)"
    using assms(3) by (simp add: distinct_map)
  have c: "\<forall>(i, n) \<in> set rows.
      n = length (filter (\<lambda>p. p_instance_id p = Some (i_instance_id i)) (paper_tbl s))"
  proof (intro ballI, clarify)
    fix i n
    assume "(i, n) \<in> set rows"
    then have e: "(i, n) \<in> set (group_count G)"
      by (simp add: rows_def set_order_by_desc)
    then have n: "n = length (filter (\<lambda>(k, p). k = i \<and> p \<noteq> None) G)"
      by (rule group_count_entry)
    have "i \<in> fst ` set (group_count G)"
      using e by force
    then have "i \<in> set (map fst rows)"
      by (simp add: rows_def set_order_by_desc)
    then obtain c0 where c0: "(c0, i) \<in> set J" "Q c0 i"
      unfolding keys by blast
    have "length (filter (\<lambda>(k, p). k = i \<and> p \<noteq> None) G) = length (papers_of (paper_tbl s) i)"
      unfolding G_def J_def
      using assms(2) di c0(1) [unfolded J_def] c0(2) by (rule stats_count)
    with n show "n = length (filter (\<lambda>p. p_instance_id p = Some (i_instance_id i)) (paper_tbl s))"
      by (simp add: papers_of_def)
  qed
  have o: "sorted_wrt (\<lambda>a b. i_year (fst b) \<le> i_year (fst a)) rows"
    using descending_order_by_desc [of "\<lambda>(i, n). i_year i" "group_count G"]
    by (simp add: rows_def case_prod_unfold)
  from r d m c o show ?thesis
    by blast
qed

lemma get_conference_stats_scenario:
  "get_conference_stats ''AAAI'' NoYear demo = (Inr [(aaai_2023, 0), (aaai_2022, 5)], demo)"
  "get_conference_stats ''AAAI'' (YearInt 2022) demo = (Inr [(aaai_2022, 5)], demo)"
  "get_conference_stats ''AAAI'' AllYears demo = (Inr [(aaai_2023, 0), (aaai_2022, 5)], demo)"
proof -
  have f: "fault demo = None"
    by (simp add: demo_def)
  show "get_conference_stats ''AAAI'' NoYear demo = (Inr [(aaai_2023, 0), (aaai_2022, 5)], demo)"
    by (simp add: get_conference_stats_def query_all_def f conference_stats_query_def
          join_instance_def outerjoin_paper_def papers_of_def group_count_def order_by_desc_def)
       (simp add: demo_def aaai_2022_def aaai_2023_def neurips_2023_def papers_of_def)
  show "get_conference_stats ''AAAI'' (YearInt 2022) demo = (Inr [(aaai_2022, 5)], demo)"
    by (simp add: get_conference_stats_def query_all_def f conference_stats_query_def
          join_instance_def outerjoin_paper_def papers_of_def group_count_def order_by_desc_def)
       (simp add: demo_def aaai_2022_def aaai_2023_def neurips_2023_def papers_of_def)
  show "get_conference_stats ''AAAI'' AllYears demo = (Inr [(aaai_2023, 0), (aaai_2022, 5)], demo)"
    by (simp add: get_conference_stats_def query_all_def f conference_stats_query_def
          join_instance_def outerjoin_paper_def papers_of_def group_count_def order_by_desc_def)
       (simp add: demo_def aaai_2022_def aaai_2023_def neurips_2023_def papers_of_def)
qed

text \<open>
  Claim C1. \<^verbatim>\<open>get_conference_stats(conference, year)\<close> is to return one pair per
  ConferenceInstance of the named conference that matches the year filter. For the year
  argument 0 it does not: the guard of the filter takes the integer 0 for a missing
  argument, and on the scenario \<^verbatim>\<open>get_conference_stats("NeurIPS", 0)\<close> returns a pair for the
  instance of 2023, which is not of the requested year. The count and the order of what
  is returned are as the claim says.
\<close>

theorem get_conference_stats_year_zero_pairs:
  "get_conference_stats ''NeurIPS'' (YearInt 0) demo = (Inr [(neurips_2023, 0)], demo)
   \<and> \<not> in_requested_year (YearInt 0) neurips_2023"
proof -
  have f: "fault demo = None"
    by (simp add: demo_def)
  have "get_conference_stats ''NeurIPS'' (YearInt 0) demo = (Inr [(neurips_2023, 0)], demo)"
    by (simp add: get_conference_stats_def query_all_def f conference_stats_query_def
          join_instance_def outerjoin_paper_def papers_of_def group_count_def order_by_desc_def)
       (simp add: demo_def aaai_2022_def aaai_2023_def neurips_2023_def papers_of_def)
  then show ?thesis
    by (simp add: neurips_2023_def)
qed

subsection \<open>\<^verbatim>\<open>get_conference_years\<close>\<close>

text \<open>
  Claim C5. Whenever the engine executes the query, \<^verbatim>\<open>get_conference_years(C)\<close> contains
  a year \<open>Y\<close> if and only if some ConferenceInstance with year \<open>Y\<close> belongs to a Conference
  named \<open>C\<close>, and the returned years are strictly descending, so none occurs twice.
\<close>

theorem get_conference_years_iff_instance:
  assumes "fault s = None"
  shows "\<exists>years. get_conference_years C s = (Inr years, s)
           \<and> (\<forall>Y. Y \<in> set years \<longleftrightarrow>
                 (\<exists>i \<in> set (instance_tbl s). \<exists>c \<in> set (conference_tbl s).
                    c_conference_id c = i_conference_id i \<and> c_name c = C \<and> i_year i = Y))
           \<and> sorted_wrt (\<lambda>a b. b < a) years"
proof -
  let ?rows = "filter (\<lambda>(i, c). c_name c = C)
                 (join_conference (instance_tbl s) (conference_tbl s))"
  let ?years = "order_by_desc id (remdups (map (\<lambda>(i, c). i_year i) ?rows))"
  have r: "get_conference_years C s = (Inr ?years, s)"
    using assms by (simp add: get_conference_years_def query_all_def)
  have m: "\<And>Y. Y \<in> set ?years \<longleftrightarrow>
                 (\<exists>i \<in> set (instance_tbl s). \<exists>c \<in> set (conference_tbl s).
                    c_conference_id c = i_conference_id i \<and> c_name c = C \<and> i_year i = Y)"
    by (force simp: set_order_by_desc set_join_conference)
  have d: "sorted_wrt (\<lambda>a b. b < a) ?years"
    by (simp add: strictly_descending_order_by_desc)
  from r m d show ?thesis
    by blast
qed

theorem get_conference_years_witness:
  "fault demo = None
   \<and> get_conference_years ''AAAI'' demo = (Inr [2023, 2022], demo)
   \<and> (\<exists>years. get_conference_years ''AAAI'' demo = (Inr years, demo)
           \<and> (\<forall>Y. Y \<in> set years \<longleftrightarrow>
                 (\<exists>i \<in> set (instance_tbl demo). \<exists>c \<in> set (conference_tbl demo).
                    c_conference_id c = i_conference_id i \<and> c_name c = ''AAAI'' \<and> i_year i = Y))
           \<and> sorted_wrt (\<lambda>a b. b < a) years)"
proof -
  have f: "fault demo = None"
    by (simp add: demo_def)
  have v: "get_conference_years ''AAAI'' demo = (Inr [2023, 2022], demo)"
    by (simp add: get_conference_years_def query_all_def join_conference_def order_by_desc_def f)
       (simp add: demo_def aaai_2022_def aaai_2023_def neurips_2023_def)
  show ?thesis
    using f v get_conference_years_iff_instance [OF f, of "''AAAI''"] by simp
qed

subsection \<open>\<^verbatim>\<open>get_conferences_by_year\<close>\<close>

text \<open>
  Claim C7. Whenever the engine executes the query, \<^verbatim>\<open>get_conferences_by_year(Y)\<close> returns
  exactly the names of the conferences that have an instance with year \<open>Y\<close>, each name
  once, in ascending alphabetical order.
\<close>

theorem get_conferences_by_year_sorted_names:
  assumes "fault s = None"
  shows "\<exists>names. get_conferences_by_year Y s = (Inr names, s)
           \<and> set names = {c_name c | c. c \<in> set (conference_tbl s)
                 \<and> (\<exists>i \<in> set (instance_tbl s).
                       i_conference_id i = c_conference_id c \<and> i_year i = Y)}
           \<and> distinct names
           \<and> sorted names"
proof -
  let ?rows = "filter (\<lambda>(c, i). i_year i = Y)
                 (join_instance (conference_tbl s) (instance_tbl s))"
  let ?names = "sort (remdups (map (\<lambda>(c, i). c_name c) ?rows))"
  have r: "get_conferences_by_year Y s = (Inr ?names, s)"
    using assms by (simp add: get_conferences_by_year_def query_all_def)
  have m: "set ?names = {c_name c | c. c \<in> set (conference_tbl s)
                 \<and> (\<exists>i \<in> set (instance_tbl s).
                       i_conference_id i = c_conference_id c \<and> i_year i = Y)}"
    by (force simp: set_join_instance)
  have d: "distinct ?names" "sorted ?names"
    by simp_all
  from r m d show ?thesis
    by blast
qed

theorem get_conferences_by_year_witness:
  "fault demo = None
   \<and> get_conferences_by_year 2023 demo = (Inr [''AAAI'', ''NeurIPS''], demo)
   \<and> (\<exists>names. get_conferences_by_year 2023 demo = (Inr names, demo)
           \<and> set names = {c_name c | c. c \<in> set (conference_tbl demo)
                 \<and> (\<exists>i \<in> set (instance_tbl demo).
                       i_conference_id i = c_conference_id c \<and> i_year i = 2023)}
           \<and> distinct names
           \<and> sorted names)"
proof -
  have f: "fault demo = None"
    by (simp add: demo_def)
  have v: "get_conferences_by_year 2023 demo = (Inr [''AAAI'', ''NeurIPS''], demo)"
    by (simp add: get_conferences_by_year_def query_all_def join_instance_def f)
       (simp add: demo_def aaai_2022_def aaai_2023_def neurips_2023_def)
  show ?thesis
    using f v get_conferences_by_year_sorted_names [OF f, of 2023] by simp
qed

subsection \<open>The year filter of \<^verbatim>\<open>get_conference_stats\<close>\<close>

text \<open>
  Claim C4. The method guards its year filter with \<^verbatim>\<open>if year and year != "All Years"\<close>, the
  truth value of the argument, so the integer 0 is taken for a missing argument. On the
  scenario, \<^verbatim>\<open>get_conference_stats("AAAI", 0)\<close> returns the instances of 2023 and of 2022,
  neither of which has the year 0 that was asked for.
\<close>

theorem get_conference_stats_year_zero:
  "get_conference_stats ''AAAI'' (YearInt 0) demo = (Inr [(aaai_2023, 0), (aaai_2022, 5)], demo)
   \<and> i_year aaai_2023 = 2023 \<and> i_year aaai_2022 = 2022"
proof -
  have f: "fault demo = None"
    by (simp add: demo_def)
  have "get_conference_stats ''AAAI'' (YearInt 0) demo
      = (Inr [(aaai_2023, 0), (aaai_2022, 5)], demo)"
    by (simp add: get_conference_stats_def query_all_def f conference_stats_query_def
          join_instance_def outerjoin_paper_def papers_of_def group_count_def order_by_desc_def)
       (simp add: demo_def aaai_2022_def aaai_2023_def neurips_2023_def papers_of_def)
  then show ?thesis
    by (simp add: aaai_2022_def aaai_2023_def)
qed

text \<open>
  For every other integer the filter is exact, and without an argument, or with the
  sentinel, no filter is applied.
\<close>

lemma stats_query_keys:
  "fst ` set (conference_stats_query C y s) =
     {i \<in> set (instance_tbl s).
        (\<exists>c \<in> set (conference_tbl s). c_conference_id c = i_conference_id i \<and> c_name c = C)
        \<and> (truthy y \<and> y \<noteq> AllYears \<longrightarrow> year_is y (i_year i))}"
proof -
  define Q where "Q = (\<lambda>(c::conference) (i::('a, 'b) conference_instance).
     c_name c = C \<and> (truthy y \<and> y \<noteq> AllYears \<longrightarrow> year_is y (i_year i)))"
  define J where "J = join_instance (conference_tbl s) (instance_tbl s)"
  define G where "G = map (\<lambda>(c, i, p). (i, p))
     (filter (\<lambda>(c, i, p). Q c i) (outerjoin_paper (paper_tbl s) J))"
  have "conference_stats_query C y s = order_by_desc (\<lambda>(i, n). i_year i) (group_count G)"
    by (simp only: stats_query_unfold G_def J_def Q_def)
  then have "fst ` set (conference_stats_query C y s) = set (map fst (group_count G))"
    by (simp add: set_order_by_desc)
  also have "\<dots> = fst ` set G"
    by (simp only: map_fst_group_count set_remdups set_map)
  also have "\<dots> = {i. \<exists>c. (c, i) \<in> set J \<and> Q c i}"
    unfolding G_def by (rule group_keys)
  also have "\<dots> = {i \<in> set (instance_tbl s).
        (\<exists>c \<in> set (conference_tbl s). c_conference_id c = i_conference_id i \<and> c_name c = C)
        \<and> (truthy y \<and> y \<noteq> AllYears \<longrightarrow> year_is y (i_year i))}"
    unfolding J_def Q_def set_join_instance by auto
  finally show ?thesis .
qed

lemma get_conference_stats_nonzero_year:
  assumes "fault s = None" and "n \<noteq> 0"
  shows "\<exists>rows. get_conference_stats C (YearInt n) s = (Inr rows, s)
           \<and> fst ` set rows =
               {i \<in> set (instance_tbl s).
                  (\<exists>c \<in> set (conference_tbl s).
                     c_conference_id c = i_conference_id i \<and> c_name c = C) \<and> i_year i = n}"
  using assms by (simp add: get_conference_stats_def query_all_def stats_query_keys)

lemma get_conference_stats_unfiltered:
  assumes "fault s = None" and "y = NoYear \<or> y = AllYears \<or> y = YearInt 0"
  shows "\<exists>rows. get_conference_stats C y s = (Inr rows, s)
           \<and> fst ` set rows =
               {i \<in> set (instance_tbl s).
                  \<exists>c \<in> set (conference_tbl s).
                     c_conference_id c = i_conference_id i \<and> c_name c = C}"
  using assms by (auto simp: get_conference_stats_def query_all_def stats_query_keys)

subsection \<open>The branches of \<^verbatim>\<open>upsert\<close>\<close>

lemma first_filter_find:
  "(case filter P xs of [] \<Rightarrow> None | r # _ \<Rightarrow> Some r) = find P xs"
  by (induction xs) simp_all

lemma query_first_find:
  "fault s = None \<Longrightarrow> query_first s (\<lambda>s. filter P (tbl s)) = Inr (find P (tbl s))"
  by (simp add: query_first_def first_filter_find)

lemma query_first_fault:
  "fault s = Some e \<Longrightarrow> query_first s q = Inl e"
  by (simp add: query_first_def)

lemma query_first_rows:
  "fault s = None \<Longrightarrow> query_first s q = Inr (case q s of [] \<Rightarrow> None | r # _ \<Rightarrow> Some r)"
  by (simp add: query_first_def)

lemma conference_rows_empty:
  "conference_rows cid tbl = [] \<longleftrightarrow> cid \<notin> c_conference_id ` set tbl"
  by (auto simp: conference_rows_def filter_empty_conv)

lemma instance_rows_member:
  "i \<in> set (instance_rows cid year tbl) \<longleftrightarrow>
     i \<in> set tbl \<and> i_conference_id i = cid \<and> i_year i = year"
  by (auto simp: instance_rows_def)

lemma upsert_fault:
  "fault s = Some e \<Longrightarrow> upsert cid name year kw s = (Inl e, s)"
  by (simp add: upsert_def query_first_fault)

lemma upsert_missing:
  assumes "fault s = None" and "cid \<notin> c_conference_id ` set (conference_tbl s)"
  shows "upsert cid name year kw s = (Inl (ValueError ''Conference not found''), s)"
proof -
  have "conference_rows cid (conference_tbl s) = []"
    using assms(2) by (simp add: conference_rows_empty)
  then show ?thesis
    using assms(1) by (simp add: upsert_def query_first_rows)
qed

lemma upsert_found:
  assumes "fault s = None" and "cid \<in> c_conference_id ` set (conference_tbl s)"
    and "instance_rows cid year (instance_tbl s) = i0 # rest"
  shows "upsert cid name year kw s =
           (case flush_update (i_instance_id i0) (setattrs kw i0) s of
              Inl e \<Rightarrow> (Inl e, s)
            | Inr s' \<Rightarrow> (Inr (setattrs kw i0), commit s'))"
proof -
  obtain c cs where "conference_rows cid (conference_tbl s) = c # cs"
    using assms(2) conference_rows_empty [of cid "conference_tbl s"]
    by (cases "conference_rows cid (conference_tbl s)") auto
  then show ?thesis
    using assms(1,3) by (simp add: upsert_def query_first_rows Let_def)
qed

lemma upsert_new:
  assumes "fault s = None" and "cid \<in> c_conference_id ` set (conference_tbl s)"
    and "instance_rows cid year (instance_tbl s) = []"
  shows "upsert cid name year kw s =
           (if KConferenceName \<in> set (map keyword_of kw)
            then (Inl (TypeError ''conference_name''), s)
            else
              (case flush_insert (setattrs kw
                      \<lparr>i_instance_id = next_instance_id (instance_tbl s),
                       i_conference_id = cid, i_conference_name = name, i_year = year,
                       i_extras = []\<rparr>) s of
                 Inl e \<Rightarrow> (Inl e, s)
               | Inr s' \<Rightarrow> (Inr (setattrs kw
                      \<lparr>i_instance_id = next_instance_id (instance_tbl s),
                       i_conference_id = cid, i_conference_name = name, i_year = year,
                       i_extras = []\<rparr>), commit s')))"
proof -
  obtain c cs where "conference_rows cid (conference_tbl s) = c # cs"
    using assms(2) conference_rows_empty [of cid "conference_tbl s"]
    by (cases "conference_rows cid (conference_tbl s)") auto
  then show ?thesis
    using assms(1,3) by (simp add: upsert_def query_first_rows Let_def)
qed

lemma commit_fields:
  "conference_tbl (commit s) = conference_tbl s"
  "instance_tbl (commit s) = instance_tbl s"
  "paper_tbl (commit s) = paper_tbl s"
  "session_tbl (commit s) = session_tbl s"
  "commits (commit s) = Suc (commits s)"
  "fault (commit s) = fault s"
  by (simp_all add: commit_def)

subsection \<open>Setting attributes\<close>

lemma setattrs_Nil: "setattrs [] i = i"
  by (simp add: setattrs_def)

lemma setattrs_Cons: "setattrs (a # kw) i = setattrs kw (setattr i a)"
  by (simp add: setattrs_def)

lemma setattr_pair:
  "i_conference_id (setattr i a) = i_conference_id i"
  "i_year (setattr i a) = i_year i"
  by (cases a; simp)+

lemma setattrs_pair:
  "i_conference_id (setattrs kw i) = i_conference_id i"
  "i_year (setattrs kw i) = i_year i"
  by (induction kw arbitrary: i; simp add: setattrs_Nil setattrs_Cons setattr_pair)+













subsection \<open>Primary keys\<close>

lemma fold_max_ge: "(a::nat) \<le> fold max xs a"
proof (induction xs arbitrary: a)
  case Nil
  then show ?case by simp
next
  case (Cons x xs)
  have "a \<le> max x a"
    by simp
  also have "\<dots> \<le> fold max xs (max x a)"
    by (rule Cons.IH)
  finally show ?case
    by simp
qed

lemma fold_max_mem: "x \<in> set xs \<Longrightarrow> (x::nat) \<le> fold max xs a"
proof (induction xs arbitrary: a)
  case Nil
  then show ?case by simp
next
  case (Cons y xs)
  show ?case
  proof (cases "x = y")
    case True
    have "x \<le> max y a"
      using True by simp
    also have "\<dots> \<le> fold max xs (max y a)"
      by (rule fold_max_ge)
    finally show ?thesis
      by simp
  next
    case False
    then have "x \<in> set xs"
      using Cons.prems by simp
    then have "x \<le> fold max xs (max y a)"
      by (rule Cons.IH)
    then show ?thesis
      by simp
  qed
qed

lemma next_instance_id_fresh:
  "next_instance_id is \<notin> i_instance_id ` set is"
proof
  assume "next_instance_id is \<in> i_instance_id ` set is"
  then have "next_instance_id is \<in> set (map i_instance_id is)"
    by simp
  then have "next_instance_id is \<le> fold max (map i_instance_id is) 0"
    by (rule fold_max_mem)
  then show False
    by (simp add: next_instance_id_def)
qed

lemma flush_insert_ok:
  assumes "i_instance_id r \<notin> i_instance_id ` set (instance_tbl s)"
  shows "flush_insert r s = Inr (s\<lparr>instance_tbl := instance_tbl s @ [r]\<rparr>)"
  using assms by (simp add: flush_insert_def)

lemma flush_update_ok:
  assumes "i_instance_id r = loaded \<or> i_instance_id r \<notin> i_instance_id ` set (instance_tbl s)"
  shows "flush_update loaded r s =
           Inr (s\<lparr>instance_tbl :=
                  map (\<lambda>x. if i_instance_id x = loaded then r else x) (instance_tbl s)\<rparr>)"
  using assms by (auto simp: flush_update_def)

lemma flush_keeps_state:
  "flush_insert r s = Inr s' \<Longrightarrow>
     conference_tbl s' = conference_tbl s \<and> paper_tbl s' = paper_tbl s
     \<and> session_tbl s' = session_tbl s \<and> commits s' = commits s \<and> fault s' = fault s"
  "flush_update loaded r s = Inr s' \<Longrightarrow>
     conference_tbl s' = conference_tbl s \<and> paper_tbl s' = paper_tbl s
     \<and> session_tbl s' = session_tbl s \<and> commits s' = commits s \<and> fault s' = fault s"
  by (auto simp: flush_insert_def flush_update_def split: if_splits)



lemma distinct_replaced:
  assumes d: "distinct (map i_instance_id tbl)"
    and r: "i_instance_id r = loaded \<or> i_instance_id r \<notin> i_instance_id ` set tbl"
  shows "distinct (map i_instance_id (map (\<lambda>x. if i_instance_id x = loaded then r else x) tbl))"
proof -
  let ?h = "\<lambda>n. if n = loaded then i_instance_id r else n"
  have "map i_instance_id (map (\<lambda>x. if i_instance_id x = loaded then r else x) tbl)
      = map ?h (map i_instance_id tbl)"
    unfolding map_map by (rule map_cong [OF refl]) simp
  moreover have "inj_on ?h (set (map i_instance_id tbl))"
    using r by (force simp: inj_on_def image_iff split: if_splits)
  ultimately show ?thesis
    using d by (simp only: distinct_map [where f = "\<lambda>n. if n = loaded then i_instance_id r else n"] simp_thms)
qed



subsection \<open>The scenario, evaluated\<close>

lemma demo_eval:
  "fault demo = None"
  "''c1'' \<in> c_conference_id ` set (conference_tbl demo)"
  "''c9'' \<notin> c_conference_id ` set (conference_tbl demo)"
  "distinct (map i_instance_id (instance_tbl demo))"
  "i_instance_id ` set (instance_tbl demo) = {1, 2, 3}"
  "instance_rows ''c1'' 2023 (instance_tbl demo) = [aaai_2023]"
  "instance_rows ''c1'' 2024 (instance_tbl demo) = []"
  by (auto simp: demo_def instance_rows_def aaai_2022_def aaai_2023_def neurips_2023_def)

subsection \<open>\<^verbatim>\<open>upsert\<close> with an unknown conference\<close>

text \<open>
  Claim C3. When no Conference row has the given \<open>conference_id\<close>, \<^verbatim>\<open>upsert\<close> returns an
  error and leaves the session state exactly as it found it: no ConferenceInstance row is
  created, none is modified and nothing is committed. With a working engine the error is
  the \<open>ValueError\<close> "Conference not found".
\<close>

theorem upsert_unknown_conference:
  assumes "cid \<notin> c_conference_id ` set (conference_tbl s)"
  shows "snd (upsert cid name year kw s) = s
       \<and> (\<exists>e. fst (upsert cid name year kw s) = Inl e)
       \<and> (fault s = None \<longrightarrow>
            fst (upsert cid name year kw s) = Inl (ValueError ''Conference not found''))"
proof (cases "fault s")
  case None
  then have "upsert cid name year kw s = (Inl (ValueError ''Conference not found''), s)"
    using assms by (rule upsert_missing)
  then show ?thesis
    by simp
next
  case (Some e)
  then have "upsert cid name year kw s = (Inl e, s)"
    by (rule upsert_fault)
  with Some show ?thesis
    by simp
qed

theorem upsert_unknown_conference_witness:
  "''c9'' \<notin> c_conference_id ` set (conference_tbl demo)
   \<and> upsert ''c9'' ''ICML'' 2024 [Extra ''location'' ''Vienna''] demo
       = (Inl (ValueError ''Conference not found''), demo)"
  using demo_eval(1,3)
    upsert_unknown_conference [OF demo_eval(3), of "''ICML''" 2024 "[Extra ''location'' ''Vienna'']"]
  by (simp add: prod_eq_iff)

subsection \<open>\<^verbatim>\<open>upsert\<close> updates or creates\<close>




subsection \<open>\<^verbatim>\<open>upsert\<close> keeps the uniqueness invariant\<close>

text \<open>
  Whatever its arguments and whatever its outcome, \<^verbatim>\<open>upsert\<close> leaves a table that satisfies
  the invariant in a state that satisfies it; so every state the repository reaches from
  an empty ConferenceInstance table holds at most one instance for each pair.
\<close>

lemma distinct_key_filter:
  "distinct (map f xs) \<Longrightarrow> length (filter (\<lambda>x. f x = k) xs) \<le> 1"
proof (induction xs)
  case Nil
  then show ?case by simp
next
  case (Cons a xs)
  have d: "distinct (map f xs)" and n: "f a \<notin> f ` set xs"
    using Cons.prems by simp_all
  have ih: "length (filter (\<lambda>x. f x = k) xs) \<le> 1"
    using d by (rule Cons.IH)
  show ?case
  proof (cases "f a = k")
    case True
    have "filter (\<lambda>x. f x = k) xs = []"
      using n True by (force simp: filter_empty_conv image_iff)
    with True show ?thesis
      by simp
  next
    case False
    with ih show ?thesis
      by simp
  qed
qed

lemma unique_instances_pair:
  assumes "unique_instances tbl"
  shows "length (instance_rows cid year tbl) \<le> 1"
proof -
  have "distinct (map (\<lambda>i. (i_conference_id i, i_year i)) tbl)"
    using assms by (simp add: unique_instances_def)
  then have "length (filter (\<lambda>i. (i_conference_id i, i_year i) = (cid, year)) tbl) \<le> 1"
    by (rule distinct_key_filter)
  then show ?thesis
    by (simp add: instance_rows_def)
qed

lemma pair_replaced:
  assumes "distinct (map i_instance_id tbl)" and "i0 \<in> set tbl"
    and "i_conference_id r = i_conference_id i0" and "i_year r = i_year i0"
  shows "map (\<lambda>i. (i_conference_id i, i_year i))
           (map (\<lambda>x. if i_instance_id x = i_instance_id i0 then r else x) tbl)
         = map (\<lambda>i. (i_conference_id i, i_year i)) tbl"
proof -
  have inj: "inj_on i_instance_id (set tbl)"
    using assms(1) by (simp add: distinct_map)
  show ?thesis
    unfolding map_map
  proof (rule map_cong [OF refl])
    fix x
    assume x: "x \<in> set tbl"
    show "((\<lambda>i. (i_conference_id i, i_year i)) \<circ>
           (\<lambda>x. if i_instance_id x = i_instance_id i0 then r else x)) x
        = (i_conference_id x, i_year x)"
    proof (cases "i_instance_id x = i_instance_id i0")
      case True
      then have "x = i0"
        using inj x assms(2) by (simp add: inj_on_def)
      then show ?thesis
        using assms(3,4) by simp
    next
      case False
      then show ?thesis
        by simp
    qed
  qed
qed

lemma upsert_preserves_unique_instances:
  assumes "unique_instances (instance_tbl s)"
  shows "unique_instances (instance_tbl (snd (upsert cid name year kw s)))"
proof (cases "fault s")
  case (Some e)
  then show ?thesis
    using assms by (simp add: upsert_fault)
next
  case None
  show ?thesis
  proof (cases "cid \<in> c_conference_id ` set (conference_tbl s)")
    case False
    with None show ?thesis
      using assms by (simp add: upsert_missing)
  next
    case c: True
    have d: "distinct (map i_instance_id (instance_tbl s))"
      and p: "distinct (map (\<lambda>i. (i_conference_id i, i_year i)) (instance_tbl s))"
      using assms by (simp_all add: unique_instances_def)
    show ?thesis
    proof (cases "instance_rows cid year (instance_tbl s)")
      case Nil
      define r where "r = setattrs kw
          \<lparr>i_instance_id = next_instance_id (instance_tbl s),
           i_conference_id = cid, i_conference_name = name, i_year = year,
           i_extras = []\<rparr>"
      have key: "(i_conference_id r, i_year r)
          \<notin> (\<lambda>i. (i_conference_id i, i_year i)) ` set (instance_tbl s)"
      proof
        assume "(i_conference_id r, i_year r)
            \<in> (\<lambda>i. (i_conference_id i, i_year i)) ` set (instance_tbl s)"
        then obtain i where "i \<in> set (instance_tbl s)" "i_conference_id i = cid" "i_year i = year"
          by (auto simp: r_def setattrs_pair)
        then have "i \<in> set (instance_rows cid year (instance_tbl s))"
          by (simp add: instance_rows_member)
        with Nil show False
          by simp
      qed
      show ?thesis
      proof (cases "KConferenceName \<in> set (map keyword_of kw)
          \<or> i_instance_id r \<in> set (map i_instance_id (instance_tbl s))")
        case True
        then have "snd (upsert cid name year kw s) = s"
          using upsert_new [OF None c Nil, of name kw]
          by (auto simp: r_def flush_insert_def)
        with assms show ?thesis
          by simp
      next
        case False
        then have "instance_tbl (snd (upsert cid name year kw s)) = instance_tbl s @ [r]"
          using upsert_new [OF None c Nil, of name kw]
          by (simp add: r_def flush_insert_def commit_fields)
        then show ?thesis
          using d p key False by (simp add: unique_instances_def)
      qed
    next
      case (Cons i0 rest)
      define r where "r = setattrs kw i0"
      have i0: "i0 \<in> set (instance_tbl s)"
        using instance_rows_member [of i0 cid year "instance_tbl s"] Cons by simp
      show ?thesis
      proof (cases "i_instance_id r = i_instance_id i0
          \<or> i_instance_id r \<notin> i_instance_id ` set (instance_tbl s)")
        case False
        then have "snd (upsert cid name year kw s) = s"
          using upsert_found [OF None c Cons, of name kw]
          by (auto simp: r_def flush_update_def)
        with assms show ?thesis
          by simp
      next
        case True
        then have t: "instance_tbl (snd (upsert cid name year kw s)) =
            map (\<lambda>x. if i_instance_id x = i_instance_id i0 then r else x) (instance_tbl s)"
          using upsert_found [OF None c Cons, of name kw]
          by (simp add: r_def flush_update_ok commit_fields)
        have "distinct (map i_instance_id (instance_tbl (snd (upsert cid name year kw s))))"
          unfolding t using d True by (rule distinct_replaced)
        moreover have "map (\<lambda>i. (i_conference_id i, i_year i))
              (instance_tbl (snd (upsert cid name year kw s)))
            = map (\<lambda>i. (i_conference_id i, i_year i)) (instance_tbl s)"
          unfolding t using d i0 by (rule pair_replaced) (simp_all add: r_def setattrs_pair)
        ultimately show ?thesis
          using p by (simp add: unique_instances_def)
      qed
    qed
  qed
qed

subsection \<open>\<^verbatim>\<open>upsert\<close> is idempotent\<close>




subsection \<open>Swallowed failures\<close>

text \<open>
  Claim C9. \<^verbatim>\<open>get_conference_stats\<close>, \<^verbatim>\<open>get_sessions_by_instance\<close> and
  \<^verbatim>\<open>get_instance_by_year_and_name\<close> never return an error, whatever their arguments and
  whatever the condition of the engine. When the engine fails, the first two return the
  empty sequence and the third returns \<open>None\<close>; and when no instance has the given year and
  conference name, \<^verbatim>\<open>get_instance_by_year_and_name\<close> returns \<open>None\<close>.
\<close>

theorem swallowed_failures:
  "(\<exists>rows. get_conference_stats C y s = (Inr rows, s))
   \<and> (\<exists>sessions. get_sessions_by_instance n s = (Inr sessions, s))
   \<and> (\<exists>instance. get_instance_by_year_and_name Y N s = (Inr instance, s))
   \<and> (fault s \<noteq> None \<longrightarrow>
         get_conference_stats C y s = (Inr [], s)
         \<and> get_sessions_by_instance n s = (Inr [], s)
         \<and> get_instance_by_year_and_name Y N s = (Inr None, s))
   \<and> ((Y, N) \<notin> (\<lambda>i. (i_year i, i_conference_name i)) ` set (instance_tbl s) \<longrightarrow>
         get_instance_by_year_and_name Y N s = (Inr None, s))"
proof (cases "fault s")
  case None
  have "(Y, N) \<notin> (\<lambda>i. (i_year i, i_conference_name i)) ` set (instance_tbl s) \<Longrightarrow>
      find (\<lambda>i. i_year i = Y \<and> i_conference_name i = N) (instance_tbl s) = None"
    by (auto simp: find_None_iff)
  then show ?thesis
    using None
    by (simp add: get_conference_stats_def get_sessions_by_instance_def
        get_instance_by_year_and_name_def query_all_def
        query_first_find [where tbl = instance_tbl])
next
  case (Some e)
  then show ?thesis
    by (simp add: get_conference_stats_def get_sessions_by_instance_def
        get_instance_by_year_and_name_def query_all_def query_first_fault)
qed

theorem swallowed_failures_witness:
  "fault broken \<noteq> None
   \<and> get_conference_stats ''AAAI'' NoYear broken = (Inr [], broken)
   \<and> get_sessions_by_instance 1 broken = (Inr [], broken)
   \<and> get_instance_by_year_and_name 2022 ''AAAI'' broken = (Inr None, broken)
   \<and> (1999, ''Unknown'') \<notin> (\<lambda>i. (i_year i, i_conference_name i)) ` set (instance_tbl demo)
   \<and> get_instance_by_year_and_name 1999 ''Unknown'' demo = (Inr None, demo)"
proof -
  have f: "fault broken \<noteq> None"
    by (simp add: broken_def)
  have u: "(1999, ''Unknown'') \<notin> (\<lambda>i. (i_year i, i_conference_name i)) ` set (instance_tbl demo)"
    by (simp add: demo_def aaai_2022_def aaai_2023_def neurips_2023_def)
  show ?thesis
    using f u
      swallowed_failures [of "''AAAI''" NoYear broken 1 2022 "''AAAI''"]
      swallowed_failures [of "''AAAI''" NoYear demo 1 1999 "''Unknown''"]
    by simp
qed

subsection \<open>Reads leave the database alone\<close>

text \<open>
  Claim C10. Each of the eight read methods returns the session state it was given: no
  table changes and no commit is issued, whether the query succeeds or fails. \<^verbatim>\<open>upsert\<close>
  is the only method that writes: when it fails the state is unchanged, when it succeeds it
  has issued exactly one commit and has touched the ConferenceInstance table only.
\<close>

theorem reads_leave_state:
  "snd (get_all_conferences s) = s
   \<and> snd (get_all_years s) = s
   \<and> snd (get_conferences_by_year year s) = s
   \<and> snd (get_conference_years conference s) = s
   \<and> snd (get_conference_stats conference y s) = s
   \<and> snd (get_yearly_conference_stats year s) = s
   \<and> snd (get_sessions_by_instance n s) = s
   \<and> snd (get_instance_by_year_and_name year conference s) = s
   \<and> (case upsert cid name year kw s of
         (Inl e, s') \<Rightarrow> s' = s
       | (Inr r, s') \<Rightarrow> commits s' = Suc (commits s)
            \<and> conference_tbl s' = conference_tbl s
            \<and> paper_tbl s' = paper_tbl s
            \<and> session_tbl s' = session_tbl s)"
proof -
  have reads: "snd (get_all_conferences s) = s" "snd (get_all_years s) = s"
    "snd (get_conferences_by_year year s) = s" "snd (get_conference_years conference s) = s"
    "snd (get_conference_stats conference y s) = s" "snd (get_yearly_conference_stats year s) = s"
    "snd (get_sessions_by_instance n s) = s"
    "snd (get_instance_by_year_and_name year conference s) = s"
    by (simp_all add: get_all_conferences_def get_all_years_def get_conferences_by_year_def
        get_conference_years_def get_conference_stats_def get_yearly_conference_stats_def
        get_sessions_by_instance_def get_instance_by_year_and_name_def split: sum.splits)
  have "case upsert cid name year kw s of
         (Inl e, s') \<Rightarrow> s' = s
       | (Inr r, s') \<Rightarrow> commits s' = Suc (commits s)
            \<and> conference_tbl s' = conference_tbl s
            \<and> paper_tbl s' = paper_tbl s
            \<and> session_tbl s' = session_tbl s"
    by (auto simp: upsert_def Let_def commit_fields flush_insert_def flush_update_def
        split: sum.splits option.splits if_splits)
  with reads show ?thesis
    by simp
qed

theorem reads_leave_state_witness:
  "snd (get_all_years demo) = demo
   \<and> snd (get_conference_stats ''AAAI'' NoYear demo) = demo
   \<and> snd (get_conference_stats ''AAAI'' NoYear broken) = broken
   \<and> upsert ''c9'' ''ICML'' 2024 [] demo = (Inl (ValueError ''Conference not found''), demo)
   \<and> commits (snd (upsert ''c1'' ''AAAI'' 2024 [] demo)) = Suc (commits demo)"
proof -
  have m: "upsert ''c9'' ''ICML'' 2024 [] demo = (Inl (ValueError ''Conference not found''), demo)"
    using demo_eval(1,3) by (rule upsert_missing)
  have "i_instance_id (setattrs ([]::(string, string) kwarg list)
          \<lparr>i_instance_id = next_instance_id (instance_tbl demo),
           i_conference_id = ''c1'', i_conference_name = ''AAAI'', i_year = 2024,
           i_extras = []\<rparr>) \<notin> i_instance_id ` set (instance_tbl demo)"
    using next_instance_id_fresh [of "instance_tbl demo"] by (simp add: setattrs_Nil)
  then have "\<exists>r s'. upsert ''c1'' ''AAAI'' 2024 ([]::(string, string) kwarg list) demo = (Inr r, s')"
    using upsert_new [OF demo_eval(1,2,7), where name = "''AAAI''" and kw = "[]"]
    by (simp add: flush_insert_ok)
  then show ?thesis
    using m
      reads_leave_state [where s = demo and y = NoYear and cid = "''c1''" and name = "''AAAI''"
        and year = 2024 and kw = "[]" and conference = "''AAAI''"]
      reads_leave_state [where s = broken and y = NoYear and conference = "''AAAI''"]
    by fastforce
qed

end
